theory Spec2Isabelle
  imports Main
begin

section \<open>C strings\<close>

text \<open>
  A \<open>const char *\<close> argument is modelled by the bytes found from the pointed position on.
  The string the pointer denotes is the run of bytes before the first NUL byte; the end of
  the list stands for a terminating NUL as well, so every byte list is a readable array.
  A pointer into a string is the list of bytes from the position it points at.
\<close>

abbreviation NUL :: char where
  "NUL \<equiv> CHR 0x00"

definition c_str :: "char list \<Rightarrow> string" where
  "c_str bs = takeWhile (\<lambda>b. b \<noteq> NUL) bs"

definition is_cstring :: "string \<Rightarrow> bool" where
  "is_cstring s = (NUL \<notin> set s)"

section \<open>The two functions of string.h that utils.c calls\<close>

text \<open>
  \<open>char *strrchr(const char *s, int c)\<close>: a pointer to the last occurrence of \<open>(char) c\<close>
  in the string \<open>s\<close>, whose terminating NUL counts as part of the string; the null pointer
  (\<open>None\<close>) when \<open>c\<close> does not occur.
\<close>

fun strrchr :: "char list \<Rightarrow> char \<Rightarrow> char list option" where
  "strrchr [] c = (if c = NUL then Some [] else None)"
| "strrchr (b # bs) c =
     (if b = NUL then (if c = NUL then Some (b # bs) else None)
      else (case strrchr bs c of
              Some p \<Rightarrow> Some p
            | None \<Rightarrow> (if b = c then Some (b # bs) else None)))"

text \<open>
  \<open>int strcmp(const char *s1, const char *s2)\<close>: the two strings are compared byte by byte,
  as \<open>unsigned char\<close>, up to the first difference or the terminating NUL; the result is the
  difference of the two bytes that decide, so it is zero when the strings are equal.
\<close>

fun strcmp :: "char list \<Rightarrow> char list \<Rightarrow> int" where
  "strcmp [] [] = 0"
| "strcmp [] (c2 # s2) = 0 - int (of_char c2)"
| "strcmp (c1 # s1) [] = int (of_char c1) - 0"
| "strcmp (c1 # s1) (c2 # s2) =
     (if c1 \<noteq> c2 then int (of_char c1) - int (of_char c2)
      else if c1 = NUL then 0
      else strcmp s1 s2)"

section \<open>utils.c\<close>

text \<open>
  \<open>int is_image_or_video(const char* filename)\<close>: the extension is looked up with
  \<open>strrchr(filename, '.')\<close>; a null result returns 0; otherwise the five \<open>strcmp\<close> tests
  decide between 1 and 0.
\<close>

definition is_image_or_video :: "char list \<Rightarrow> int" where
  "is_image_or_video filename =
     (case strrchr filename CHR ''.'' of
        None \<Rightarrow> 0
      | Some ext \<Rightarrow>
          (if strcmp ext ''.jpg'' = 0 \<or> strcmp ext ''.png'' = 0 \<or>
              strcmp ext ''.mp4'' = 0 \<or> strcmp ext ''.avi'' = 0 \<or> strcmp ext ''.mp3'' = 0
           then 1
           else 0))"

section \<open>The call on a store\<close>

text \<open>
  For the effect of a call every step of the code is written over a memory: a list of
  bytes, a pointer being an index into it and the null pointer \<open>None\<close>. Each step takes the
  memory and gives back the memory it leaves behind together with its value, so a step
  that wrote would show in what it gives back; \<open>None\<close> is undefined behaviour.
  \<open>string_at m p\<close> is the string a pointer \<open>p\<close> denotes in \<open>m\<close>: the bytes from \<open>p\<close> up to
  the first NUL, and \<open>None\<close> when no NUL follows \<open>p\<close> inside the memory.
\<close>

type_synonym addr = nat

type_synonym memory = "char list"

definition string_at :: "memory \<Rightarrow> addr \<Rightarrow> string option" where
  "string_at m p = (if NUL \<in> set (drop p m) then Some (c_str (drop p m)) else None)"

text \<open>Reading \<open>*p\<close>: the byte at \<open>p\<close>; a read outside the memory is undefined.\<close>

definition load :: "memory \<Rightarrow> addr \<Rightarrow> (memory \<times> char) option" where
  "load m p = (if p < length m then Some (m, m ! p) else None)"

text \<open>
  \<open>strrchr\<close> as the loop
  \<^verbatim>\<open>found = NULL; do { if (*s == (char) c) found = s; } while (*s++); return found;\<close>
\<close>

function strrchr_loop ::
  "memory \<Rightarrow> addr \<Rightarrow> char \<Rightarrow> addr option \<Rightarrow> (memory \<times> addr option) option" where
  "strrchr_loop m s c found =
     (case load m s of
        None \<Rightarrow> None
      | Some (m1, b) \<Rightarrow>
          (let found1 = (if b = c then Some s else found)
           in if b = NUL then Some (m1, found1) else strrchr_loop m1 (s + 1) c found1))"
  by pat_completeness auto
termination
  by (relation "measure (\<lambda>(m, s, c, found). length m - s)")
    (auto simp: load_def split: if_splits)

definition strrchr_mem :: "memory \<Rightarrow> addr \<Rightarrow> char \<Rightarrow> (memory \<times> addr option) option" where
  "strrchr_mem m s c = strrchr_loop m s c None"

text \<open>
  \<open>strcmp\<close> as the loop that reads \<open>s1\<close> byte by byte against \<open>s2\<close> and stops at the first
  difference or at the terminator. In \<open>utils.c\<close> the second argument is always a string
  literal: it is given by its characters, the end of the list being its terminator.
\<close>

fun strcmp_mem :: "memory \<Rightarrow> addr \<Rightarrow> string \<Rightarrow> (memory \<times> int) option" where
  "strcmp_mem m s1 [] =
     (case load m s1 of
        None \<Rightarrow> None
      | Some (m1, c1) \<Rightarrow> Some (m1, int (of_char c1) - 0))"
| "strcmp_mem m s1 (c2 # s2) =
     (case load m s1 of
        None \<Rightarrow> None
      | Some (m1, c1) \<Rightarrow>
          if c1 \<noteq> c2 then Some (m1, int (of_char c1) - int (of_char c2))
          else if c1 = NUL then Some (m1, 0)
          else strcmp_mem m1 (s1 + 1) s2)"

text \<open>
  The body of \<open>is_image_or_video\<close>, statement by statement: the memory goes from one call
  to the next in the order of evaluation, \<open>||\<close> stops at the first comparison that gives
  zero, and the memory left by the last call made is the one the function leaves.
\<close>

definition is_image_or_video_mem :: "memory \<Rightarrow> addr \<Rightarrow> (memory \<times> int) option" where
  "is_image_or_video_mem m filename =
     (case strrchr_mem m filename CHR ''.'' of
        None \<Rightarrow> None
      | Some (m0, None) \<Rightarrow> Some (m0, 0)
      | Some (m0, Some ext) \<Rightarrow>
     (case strcmp_mem m0 ext ''.jpg'' of
        None \<Rightarrow> None
      | Some (m1, r1) \<Rightarrow> if r1 = 0 then Some (m1, 1) else
     (case strcmp_mem m1 ext ''.png'' of
        None \<Rightarrow> None
      | Some (m2, r2) \<Rightarrow> if r2 = 0 then Some (m2, 1) else
     (case strcmp_mem m2 ext ''.mp4'' of
        None \<Rightarrow> None
      | Some (m3, r3) \<Rightarrow> if r3 = 0 then Some (m3, 1) else
     (case strcmp_mem m3 ext ''.avi'' of
        None \<Rightarrow> None
      | Some (m4, r4) \<Rightarrow> if r4 = 0 then Some (m4, 1) else
     (case strcmp_mem m4 ext ''.mp3'' of
        None \<Rightarrow> None
      | Some (m5, r5) \<Rightarrow> if r5 = 0 then Some (m5, 1) else Some (m5, 0)))))))"

section \<open>Facts about the library functions\<close>

lemma of_char_eq_0_iff: "(of_char c = (0::nat)) = (c = NUL)"
proof -
  have "(of_char c = (of_char NUL :: nat)) = (c = NUL)"
    by (rule of_char_eq_iff)
  then show ?thesis by simp
qed

text \<open>\<open>strcmp\<close> returns zero exactly when the two strings are the same.\<close>

lemma strcmp_eq_0_iff: "(strcmp s t = 0) = (c_str s = c_str t)"
  by (induction s t rule: strcmp.induct) (auto simp: c_str_def of_char_eq_0_iff)

lemma c_str_cstring: "is_cstring s \<Longrightarrow> c_str s = s"
  by (auto simp: c_str_def is_cstring_def)

lemma c_str_idem: "c_str (c_str bs) = c_str bs"
  by (simp add: c_str_def takeWhile_takeWhile)

lemma c_str_literals:
  "c_str ''.jpg'' = ''.jpg''" "c_str ''.png'' = ''.png''" "c_str ''.mp4'' = ''.mp4''"
  "c_str ''.avi'' = ''.avi''" "c_str ''.mp3'' = ''.mp3''"
  by (simp_all add: c_str_def)

text \<open>\<open>strrchr\<close> returns the null pointer exactly when the character is not in the string.\<close>

lemma strrchr_None_iff: "c \<noteq> NUL \<Longrightarrow> (strrchr bs c = None) = (c \<notin> set (c_str bs))"
  by (induction bs) (auto simp: c_str_def split: option.splits)

text \<open>Otherwise it points at the last occurrence: no further one follows.\<close>

lemma strrchr_last:
  assumes "c \<noteq> NUL" and "c_str bs = base @ c # rest" and "c \<notin> set rest"
  shows "\<exists>p. strrchr bs c = Some p \<and> c_str p = c # rest"
  using assms(2)
proof (induction bs arbitrary: base)
  case Nil
  then show ?case by (simp add: c_str_def)
next
  case (Cons b bs)
  from Cons.prems have b: "b \<noteq> NUL"
    by (auto simp: c_str_def split: if_splits)
  with Cons.prems have eq: "b # c_str bs = base @ c # rest"
    by (simp add: c_str_def)
  show ?case
  proof (cases base)
    case Nil
    with eq have "b = c" and "c_str bs = rest" by simp_all
    with assms(3) have "strrchr bs c = None"
      by (simp add: strrchr_None_iff [OF assms(1)])
    with b \<open>b = c\<close> \<open>c_str bs = rest\<close> show ?thesis
      by (simp add: c_str_def)
  next
    case (Cons x base')
    with eq have "c_str bs = base' @ c # rest" by simp
    from Cons.IH [OF this] b show ?thesis by auto
  qed
qed

section \<open>The classifier in terms of the last dot\<close>

lemma is_image_or_video_no_dot:
  assumes "CHR ''.'' \<notin> set (c_str bs)"
  shows "is_image_or_video bs = 0"
proof -
  have "CHR ''.'' \<noteq> NUL" by simp
  from strrchr_None_iff [OF this, of bs] assms have "strrchr bs CHR ''.'' = None"
    by simp
  then show ?thesis by (simp add: is_image_or_video_def)
qed

lemma is_image_or_video_last_dot:
  assumes "c_str bs = base @ CHR ''.'' # rest" and "CHR ''.'' \<notin> set rest"
  shows "is_image_or_video bs =
    (if CHR ''.'' # rest \<in> {''.jpg'', ''.png'', ''.mp4'', ''.avi'', ''.mp3''} then 1 else 0)"
proof -
  have "CHR ''.'' \<noteq> NUL" by simp
  from strrchr_last [OF this assms] obtain p
    where "strrchr bs CHR ''.'' = Some p" and "c_str p = CHR ''.'' # rest" by blast
  then show ?thesis
    by (simp add: is_image_or_video_def strcmp_eq_0_iff c_str_literals)
qed

text \<open>The result depends on the string alone, not on the bytes behind its terminator.\<close>

lemma is_image_or_video_c_str: "is_image_or_video bs = is_image_or_video (c_str bs)"
proof (cases "CHR ''.'' \<in> set (c_str bs)")
  case False
  then show ?thesis
    by (simp add: is_image_or_video_no_dot c_str_idem)
next
  case True
  then obtain base rest where d: "c_str bs = base @ CHR ''.'' # rest" "CHR ''.'' \<notin> set rest"
    by (auto dest: split_list_last)
  have "c_str (c_str bs) = base @ CHR ''.'' # rest"
    by (rule trans [OF c_str_idem d(1)])
  from is_image_or_video_last_dot [OF this d(2)] is_image_or_video_last_dot [OF d]
  show ?thesis by simp
qed

section \<open>The code on a store against the code on strings\<close>

lemma load_Some: "p < length m \<Longrightarrow> load m p = Some (m, m ! p)"
  by (simp add: load_def)

text \<open>A pointer with a NUL behind it is in range.\<close>

lemma drop_terminated:
  "NUL \<in> set (drop p m) \<Longrightarrow> p < length m \<and> drop p m = m ! p # drop (Suc p) m"
  by (cases "p < length m") (simp_all add: Cons_nth_drop_Suc)

text \<open>On a terminated argument the loops read inside the memory, leave it as it is and
  compute what \<open>strcmp\<close> and \<open>strrchr\<close> compute on the bytes from the pointer on.\<close>

lemma strcmp_mem_refines:
  "NUL \<in> set (drop p m) \<Longrightarrow> strcmp_mem m p lit = Some (m, strcmp (drop p m) lit)"
proof (induction lit arbitrary: p)
  case Nil
  from drop_terminated [OF Nil] show ?case by (simp add: load_Some)
next
  case (Cons c2 lit)
  from drop_terminated [OF Cons.prems] have p: "p < length m" and d: "drop p m = m ! p # drop (Suc p) m"
    by simp_all
  show ?case
  proof (cases "m ! p = c2 \<and> m ! p \<noteq> NUL")
    case True
    with Cons.prems d have "NUL \<in> set (drop (Suc p) m)"
      by (metis set_ConsD)
    from Cons.IH [OF this] True p d show ?thesis by (simp add: load_Some)
  next
    case False
    with p d show ?thesis by (auto simp: load_Some)
  qed
qed

lemma strrchr_loop_refines:
  "NUL \<in> set (drop s m) \<Longrightarrow>
   \<exists>r. strrchr_loop m s c found = Some (m, r) \<and>
     (case strrchr (drop s m) c of
        None \<Rightarrow> r = found
      | Some q \<Rightarrow> \<exists>e. r = Some e \<and> drop e m = q \<and> NUL \<in> set q)"
proof (induction m s c found rule: strrchr_loop.induct)
  case (1 m s c found)
  from drop_terminated [OF "1.prems"] have p: "s < length m" and d: "drop s m = m ! s # drop (Suc s) m"
    by simp_all
  show ?case
  proof (cases "m ! s = NUL")
    case True
    with p d "1.prems" show ?thesis
      by (subst strrchr_loop.simps) (auto simp: load_Some)
  next
    case False
    with "1.prems" d have n: "NUL \<in> set (drop (s + 1) m)"
      by (metis Suc_eq_plus1 set_ConsD)
    have l: "load m s = Some (m, m ! s)" using p by (rule load_Some)
    from "1.IH" [OF l refl refl False n]
    obtain r where r: "strrchr_loop m (s + 1) c (if m ! s = c then Some s else found) = Some (m, r)"
      and c: "(case strrchr (drop (s + 1) m) c of
        None \<Rightarrow> r = (if m ! s = c then Some s else found)
      | Some q \<Rightarrow> \<exists>e. r = Some e \<and> drop e m = q \<and> NUL \<in> set q)" by blast
    have "strrchr_loop m s c found = Some (m, r)"
      using r l False by (subst strrchr_loop.simps) simp
    moreover have "(case strrchr (drop s m) c of
        None \<Rightarrow> r = found
      | Some q \<Rightarrow> \<exists>e. r = Some e \<and> drop e m = q \<and> NUL \<in> set q)"
      using c d False "1.prems" by (auto split: option.splits)
    ultimately show ?thesis by blast
  qed
qed


text \<open>So does the body of \<open>is_image_or_video\<close>.\<close>

lemma is_image_or_video_mem_refines:
  assumes "NUL \<in> set (drop p m)"
  shows "is_image_or_video_mem m p = Some (m, is_image_or_video (drop p m))"
proof -
  from strrchr_loop_refines [OF assms, of "CHR ''.''" None]
  obtain r where r: "strrchr_mem m p CHR ''.'' = Some (m, r)"
    and c: "(case strrchr (drop p m) CHR ''.'' of
        None \<Rightarrow> r = None
      | Some q \<Rightarrow> \<exists>e. r = Some e \<and> drop e m = q \<and> NUL \<in> set q)"
    by (auto simp: strrchr_mem_def)
  show ?thesis
  proof (cases "strrchr (drop p m) CHR ''.''")
    case None
    with c r show ?thesis
      by (simp add: is_image_or_video_mem_def is_image_or_video_def)
  next
    case (Some q)
    with c obtain e where e: "r = Some e" "drop e m = q" "NUL \<in> set (drop e m)"
      by auto
    have "strcmp_mem m e lit = Some (m, strcmp q lit)" for lit
      using strcmp_mem_refines [OF e(3), of lit] e(2) by simp
    with r e(1) Some show ?thesis
      by (simp add: is_image_or_video_mem_def is_image_or_video_def
          del: strcmp_mem.simps strcmp.simps)
  qed
qed

section \<open>Properties\<close>

text \<open>
  C1. For every file name, the function returns 1 (true) if and only if the name contains
  a dot and the substring from its last dot to its end is one of \<open>.jpg\<close>, \<open>.png\<close>,
  \<open>.mp4\<close>, \<open>.avi\<close>, \<open>.mp3\<close>. The last dot is the one with no dot after it.
\<close>

theorem is_image_or_video_iff:
  assumes "is_cstring filename"
  shows "(is_image_or_video filename = 1) =
     (\<exists>base rest. filename = base @ CHR ''.'' # rest \<and> CHR ''.'' \<notin> set rest \<and>
        CHR ''.'' # rest \<in> {''.jpg'', ''.png'', ''.mp4'', ''.avi'', ''.mp3''})"
proof (cases "CHR ''.'' \<in> set filename")
  case False
  with assms have "is_image_or_video filename = 0"
    by (simp add: is_image_or_video_no_dot c_str_cstring)
  with False show ?thesis by auto
next
  case True
  then obtain base rest where d: "filename = base @ CHR ''.'' # rest" "CHR ''.'' \<notin> set rest"
    by (auto dest: split_list_last)
  with assms have "c_str filename = base @ CHR ''.'' # rest"
    by (simp add: c_str_cstring)
  from is_image_or_video_last_dot [OF this d(2)]
  have r: "is_image_or_video filename =
    (if CHR ''.'' # rest \<in> {''.jpg'', ''.png'', ''.mp4'', ''.avi'', ''.mp3''} then 1 else 0)" .
  show ?thesis
  proof
    assume "is_image_or_video filename = 1"
    with r have "CHR ''.'' # rest \<in> {''.jpg'', ''.png'', ''.mp4'', ''.avi'', ''.mp3''}"
      by (simp split: if_splits)
    with d show "\<exists>base rest. filename = base @ CHR ''.'' # rest \<and> CHR ''.'' \<notin> set rest \<and>
        CHR ''.'' # rest \<in> {''.jpg'', ''.png'', ''.mp4'', ''.avi'', ''.mp3''}" by blast
  next
    assume "\<exists>base rest. filename = base @ CHR ''.'' # rest \<and> CHR ''.'' \<notin> set rest \<and>
        CHR ''.'' # rest \<in> {''.jpg'', ''.png'', ''.mp4'', ''.avi'', ''.mp3''}"
    then obtain base' rest'
      where d': "filename = base' @ CHR ''.'' # rest'" "CHR ''.'' \<notin> set rest'"
        and m: "CHR ''.'' # rest' \<in> {''.jpg'', ''.png'', ''.mp4'', ''.avi'', ''.mp3''}" by blast
    from assms d' have "c_str filename = base' @ CHR ''.'' # rest'"
      by (simp add: c_str_cstring)
    from is_image_or_video_last_dot [OF this d'(2)] m
    show "is_image_or_video filename = 1" by simp
  qed
qed

theorem is_image_or_video_iff_witness:
  "is_cstring ''clip.mp4'' \<and> is_image_or_video ''clip.mp4'' = 1"
proof -
  have h: "is_cstring ''clip.mp4''"
    by (simp add: is_cstring_def)
  have "''clip.mp4'' = ''clip'' @ CHR ''.'' # ''mp4'' \<and> CHR ''.'' \<notin> set ''mp4'' \<and>
      CHR ''.'' # ''mp4'' \<in> {''.jpg'', ''.png'', ''.mp4'', ''.avi'', ''.mp3''}"
    by simp
  then have "\<exists>base rest. ''clip.mp4'' = base @ CHR ''.'' # rest \<and> CHR ''.'' \<notin> set rest \<and>
      CHR ''.'' # rest \<in> {''.jpg'', ''.png'', ''.mp4'', ''.avi'', ''.mp3''}"
    by blast
  with is_image_or_video_iff [OF h] h show ?thesis by simp
qed

text \<open>
  C2. For every file name that contains no dot the function returns 0: a negative answer,
  the \<open>int\<close> result has no value for an error.
\<close>

theorem is_image_or_video_without_dot:
  assumes "CHR ''.'' \<notin> set filename"
  shows "is_image_or_video filename = 0"
proof -
  from assms have "CHR ''.'' \<notin> set (c_str filename)"
    by (auto simp: c_str_def dest: set_takeWhileD)
  then show ?thesis by (rule is_image_or_video_no_dot)
qed

theorem is_image_or_video_without_dot_witness:
  "CHR ''.'' \<notin> set ''readme'' \<and> is_image_or_video ''readme'' = 0"
proof -
  have h: "CHR ''.'' \<notin> set ''readme''" by simp
  from is_image_or_video_without_dot [OF h] h show ?thesis by simp
qed

text \<open>
  C3. Every file name that ends in exactly \<open>.jpg\<close>, \<open>.png\<close>, \<open>.mp4\<close>, \<open>.avi\<close> or \<open>.mp3\<close>
  is classified 1; in particular \<open>clip.mp4\<close> and \<open>photo.png\<close> are.
\<close>

theorem is_image_or_video_listed_ending:
  "(\<forall>filename base ext.
      is_cstring filename \<and> filename = base @ ext \<and> ext \<in> {''.jpg'', ''.png'', ''.mp4'', ''.avi'', ''.mp3''}
      \<longrightarrow> is_image_or_video filename = 1) \<and>
   is_image_or_video ''clip.mp4'' = 1 \<and> is_image_or_video ''photo.png'' = 1"
proof -
  have "is_image_or_video filename = 1"
    if c: "is_cstring filename" and f: "filename = base @ ext" and e: "ext \<in> {''.jpg'', ''.png'', ''.mp4'', ''.avi'', ''.mp3''}"
    for filename base ext
  proof -
    from e obtain rest where r: "ext = CHR ''.'' # rest" "CHR ''.'' \<notin> set rest"
      by auto
    with c f have "c_str filename = base @ CHR ''.'' # rest"
      by (simp add: c_str_cstring)
    from is_image_or_video_last_dot [OF this r(2)] e r(1) show ?thesis by simp
  qed
  moreover have "is_image_or_video ''clip.mp4'' = 1"
    by (simp add: is_image_or_video_def)
  moreover have "is_image_or_video ''photo.png'' = 1"
    by (simp add: is_image_or_video_def)
  ultimately show ?thesis by blast
qed

theorem is_image_or_video_listed_ending_witness:
  "is_cstring ''holiday.avi'' \<and> ''holiday.avi'' = ''holiday'' @ ''.avi'' \<and>
   ''.avi'' \<in> {''.jpg'', ''.png'', ''.mp4'', ''.avi'', ''.mp3''} \<and>
   is_image_or_video ''holiday.avi'' = 1"
proof -
  have h: "is_cstring ''holiday.avi'' \<and> ''holiday.avi'' = ''holiday'' @ ''.avi'' \<and>
      ''.avi'' \<in> {''.jpg'', ''.png'', ''.mp4'', ''.avi'', ''.mp3''}"
    by (simp add: is_cstring_def)
  have "is_image_or_video ''holiday.avi'' = 1"
    by (rule is_image_or_video_listed_ending [THEN conjunct1, rule_format, OF h])
  with h show ?thesis by simp
qed

text \<open>
  C4. The comparison is case-sensitive: \<open>PHOTO.PNG\<close>, whose extension differs from the
  listed \<open>.png\<close> in letter case only, is classified 0, while \<open>PHOTO.png\<close> is classified 1.
\<close>

theorem is_image_or_video_case_sensitive:
  "is_image_or_video ''PHOTO.PNG'' = 0 \<and> is_image_or_video ''PHOTO.png'' = 1"
  by (simp add: is_image_or_video_def)

text \<open>
  C5. The extension is taken from the last dot: whatever stands before the final dot, dots
  included, the result is that of the final segment alone, which is 1 exactly when that
  segment is in the list; so \<open>archive.tar.mp3\<close> is classified 1.
\<close>

theorem is_image_or_video_final_segment:
  "(\<forall>filename base rest.
      is_cstring filename \<and> filename = base @ CHR ''.'' # rest \<and> CHR ''.'' \<notin> set rest
      \<longrightarrow> is_image_or_video filename = is_image_or_video (CHR ''.'' # rest) \<and>
          is_image_or_video filename = (if CHR ''.'' # rest \<in> {''.jpg'', ''.png'', ''.mp4'', ''.avi'', ''.mp3''} then 1 else 0)) \<and>
   is_image_or_video ''archive.tar.mp3'' = 1"
proof -
  have "is_image_or_video filename = is_image_or_video (CHR ''.'' # rest) \<and>
      is_image_or_video filename = (if CHR ''.'' # rest \<in> {''.jpg'', ''.png'', ''.mp4'', ''.avi'', ''.mp3''} then 1 else 0)"
    if c: "is_cstring filename" and f: "filename = base @ CHR ''.'' # rest"
      and r: "CHR ''.'' \<notin> set rest"
    for filename base rest
  proof -
    from c f have "is_cstring (CHR ''.'' # rest)"
      by (simp add: is_cstring_def)
    then have "c_str (CHR ''.'' # rest) = [] @ CHR ''.'' # rest"
      by (simp add: c_str_cstring)
    from is_image_or_video_last_dot [OF this r]
    have 1: "is_image_or_video (CHR ''.'' # rest) = (if CHR ''.'' # rest \<in> {''.jpg'', ''.png'', ''.mp4'', ''.avi'', ''.mp3''} then 1 else 0)" .
    from c f have "c_str filename = base @ CHR ''.'' # rest"
      by (simp add: c_str_cstring)
    from is_image_or_video_last_dot [OF this r]
    have 2: "is_image_or_video filename = (if CHR ''.'' # rest \<in> {''.jpg'', ''.png'', ''.mp4'', ''.avi'', ''.mp3''} then 1 else 0)" .
    from 1 2 show ?thesis by simp
  qed
  moreover have "is_image_or_video ''archive.tar.mp3'' = 1"
    by (simp add: is_image_or_video_def)
  ultimately show ?thesis by blast
qed

theorem is_image_or_video_final_segment_witness:
  "is_cstring ''a.png.txt'' \<and> ''a.png.txt'' = ''a.png'' @ CHR ''.'' # ''txt'' \<and>
   CHR ''.'' \<notin> set ''txt'' \<and>
   is_image_or_video ''a.png.txt'' = is_image_or_video ''.txt'' \<and>
   is_image_or_video ''a.png.txt'' = 0"
proof -
  have h: "is_cstring ''a.png.txt'' \<and> ''a.png.txt'' = ''a.png'' @ CHR ''.'' # ''txt'' \<and>
      CHR ''.'' \<notin> set ''txt''"
    by (simp add: is_cstring_def)
  have "is_image_or_video ''a.png.txt'' = is_image_or_video ''.txt'' \<and>
      is_image_or_video ''a.png.txt'' = (if ''.txt'' \<in> {''.jpg'', ''.png'', ''.mp4'', ''.avi'', ''.mp3''} then 1 else 0)"
    by (rule is_image_or_video_final_segment [THEN conjunct1, rule_format, OF h])
  with h show ?thesis by simp
qed

text \<open>
  C6. For the empty file name the function returns 0: the empty string is accepted and
  has no extension.
\<close>

theorem is_image_or_video_empty: "is_image_or_video [] = 0"
  by (simp add: is_image_or_video_def)

text \<open>
  C7. Every file name whose extension, taken from the last dot, is not one of the five
  listed values is classified 0; so are the near variants \<open>.mov\<close>, \<open>.jpeg\<close> and \<open>.JPG\<close>.
\<close>

theorem is_image_or_video_unlisted:
  "(\<forall>filename base rest.
      is_cstring filename \<and> filename = base @ CHR ''.'' # rest \<and> CHR ''.'' \<notin> set rest \<and>
      CHR ''.'' # rest \<notin> {''.jpg'', ''.png'', ''.mp4'', ''.avi'', ''.mp3''}
      \<longrightarrow> is_image_or_video filename = 0) \<and>
   is_image_or_video ''video.mov'' = 0 \<and> is_image_or_video ''image.jpeg'' = 0 \<and>
   is_image_or_video ''photo.JPG'' = 0"
proof -
  have "is_image_or_video filename = 0"
    if c: "is_cstring filename" and f: "filename = base @ CHR ''.'' # rest"
      and r: "CHR ''.'' \<notin> set rest" and e: "CHR ''.'' # rest \<notin> {''.jpg'', ''.png'', ''.mp4'', ''.avi'', ''.mp3''}"
    for filename base rest
  proof -
    from c f have "c_str filename = base @ CHR ''.'' # rest"
      by (simp add: c_str_cstring)
    from is_image_or_video_last_dot [OF this r] e show ?thesis by simp
  qed
  moreover have "is_image_or_video ''video.mov'' = 0"
    by (simp add: is_image_or_video_def)
  moreover have "is_image_or_video ''image.jpeg'' = 0"
    by (simp add: is_image_or_video_def)
  moreover have "is_image_or_video ''photo.JPG'' = 0"
    by (simp add: is_image_or_video_def)
  ultimately show ?thesis by blast
qed

theorem is_image_or_video_unlisted_witness:
  "is_cstring ''notes.v2.txt'' \<and> ''notes.v2.txt'' = ''notes.v2'' @ CHR ''.'' # ''txt'' \<and>
   CHR ''.'' \<notin> set ''txt'' \<and> CHR ''.'' # ''txt'' \<notin> {''.jpg'', ''.png'', ''.mp4'', ''.avi'', ''.mp3''} \<and>
   is_image_or_video ''notes.v2.txt'' = 0"
proof -
  have h: "is_cstring ''notes.v2.txt'' \<and> ''notes.v2.txt'' = ''notes.v2'' @ CHR ''.'' # ''txt'' \<and>
      CHR ''.'' \<notin> set ''txt'' \<and> CHR ''.'' # ''txt'' \<notin> {''.jpg'', ''.png'', ''.mp4'', ''.avi'', ''.mp3''}"
    by (simp add: is_cstring_def)
  have "is_image_or_video ''notes.v2.txt'' = 0"
    by (rule is_image_or_video_unlisted [THEN conjunct1, rule_format, OF h])
  with h show ?thesis by simp
qed

text \<open>
  C8. The function is pure and deterministic. Run on a memory, with a pointer that denotes
  a file name there, the code returns (no read leaves the memory), and the memory it
  leaves is the memory it was given: no call modifies the state. Two calls whose
  arguments denote the same file name, in whatever memories and at whatever addresses,
  return the same result, the one the file name alone determines.
\<close>

theorem is_image_or_video_pure:
  assumes "string_at m1 p1 = Some filename" and "string_at m2 p2 = Some filename"
  shows "is_image_or_video_mem m1 p1 = Some (m1, is_image_or_video filename) \<and>
         is_image_or_video_mem m2 p2 = Some (m2, is_image_or_video filename)"
proof -
  have "is_image_or_video_mem m p = Some (m, is_image_or_video filename)"
    if "string_at m p = Some filename" for m p
  proof -
    from that have n: "NUL \<in> set (drop p m)" and f: "c_str (drop p m) = filename"
      by (auto simp: string_at_def split: if_splits)
    from is_image_or_video_c_str [of "drop p m"] f
    have "is_image_or_video (drop p m) = is_image_or_video filename" by simp
    with is_image_or_video_mem_refines [OF n] show ?thesis by simp
  qed
  with assms show ?thesis by simp
qed

theorem is_image_or_video_pure_witness:
  "string_at (''a.jpg'' @ [NUL]) 0 = Some ''a.jpg'' \<and>
   string_at (''zz'' @ [NUL] @ ''a.jpg'' @ [NUL] @ ''.png'') 3 = Some ''a.jpg'' \<and>
   is_image_or_video_mem (''a.jpg'' @ [NUL]) 0 = Some (''a.jpg'' @ [NUL], 1) \<and>
   is_image_or_video_mem (''zz'' @ [NUL] @ ''a.jpg'' @ [NUL] @ ''.png'') 3 =
     Some (''zz'' @ [NUL] @ ''a.jpg'' @ [NUL] @ ''.png'', 1)"
proof -
  have h1: "string_at (''a.jpg'' @ [NUL]) 0 = Some ''a.jpg''"
    by (simp add: string_at_def c_str_def)
  have h2: "string_at (''zz'' @ [NUL] @ ''a.jpg'' @ [NUL] @ ''.png'') 3 = Some ''a.jpg''"
    by (simp add: string_at_def c_str_def)
  have v: "is_image_or_video ''a.jpg'' = 1"
    by (simp add: is_image_or_video_def)
  from is_image_or_video_pure [OF h1 h2] h1 h2 show ?thesis
    unfolding v by blast
qed

text \<open>
  C9. For every file name the returned integer is 0 or 1.
\<close>

theorem is_image_or_video_range: "is_image_or_video filename \<in> {0, 1}"
  by (simp add: is_image_or_video_def split: option.splits)

text \<open>
  C10. A file name that is nothing but a listed extension, with no base name before the
  dot, is classified 1: its last dot is its first character.
\<close>

theorem is_image_or_video_bare_extension:
  "is_image_or_video ''.jpg'' = 1 \<and> is_image_or_video ''.png'' = 1 \<and>
   is_image_or_video ''.mp4'' = 1 \<and> is_image_or_video ''.avi'' = 1 \<and>
   is_image_or_video ''.mp3'' = 1"
  by (simp add: is_image_or_video_def)

end
